theory Spec2Isabelle
  imports Main "HOL-Library.Word"
begin

section \<open>Errors raised by the downloader\<close>

text \<open>
  The Python exceptions that the modelled functions can raise. \<open>DownloadError\<close> and
  \<open>FileInfoError\<close> are the two exception classes of the repository; the others are
  built-in exceptions of the interpreter.
\<close>

datatype error =
    ValueError
  | IndexError
  | ZeroDivisionError
  | TypeError
  | OSError
  | TimeoutError
  | ClientError
  | DownloadError
  | FileInfoError

section \<open>calc.py: the segment planner\<close>

text \<open>
  A segment is the two-element list \<open>[start, end]\<close> of the source, here a pair.
  Python integers are unbounded, so \<open>int\<close>; \<open>//\<close> is floor division, as \<open>div\<close> on
  \<open>int\<close> is.
\<close>

type_synonym segment = "int \<times> int"

text \<open>
  \<open>list(range(0, stop, step))\<close> for a positive step: the interpreter computes the length
  \<open>(stop + step - 1) // step\<close> (zero when \<open>stop \<le> 0\<close>) and the k-th element \<open>k * step\<close>.
  For a negative step and a positive stop the range is empty. A zero step raises, which
  \<open>get_segment\<close> cannot reach (the division raises before).
\<close>

definition range0 :: "int \<Rightarrow> int \<Rightarrow> int list" where
  "range0 stop step =
     (if 0 < step \<and> 0 < stop
      then map (\<lambda>k. int k * step) [0 ..< nat ((stop + step - 1) div step)]
      else [])"

definition get_segment :: "int \<Rightarrow> int \<Rightarrow> error + segment list" where
  "get_segment max_size segments_amount =
     (if max_size \<le> 0 then Inl ValueError
      else
        let actual_segments = min segments_amount max_size;
            segments_amount = (if actual_segments < segments_amount
                               then actual_segments else segments_amount)
        in if segments_amount = 0 then Inl ZeroDivisionError
           else
             let standard_size = max_size div segments_amount;
                 l1_segments = range0 max_size standard_size;
                 segments = map (\<lambda>x. (x, x + standard_size - 1)) l1_segments
             in if segments = [] then Inl IndexError
                else Inr (butlast segments @ [(fst (last segments), max_size - 1)]))"

text \<open>
  What it means for a list of ranges to partition \<open>[0, size)\<close> in ascending order: the
  first range starts at 0, every range is non-empty, each range starts right after the
  one before it ends, and the last one ends at \<open>size - 1\<close>.
\<close>

fun chained :: "int \<Rightarrow> segment list \<Rightarrow> int \<Rightarrow> bool" where
  "chained lo [] hi = (lo = hi)"
| "chained lo ((s, e) # rest) hi = (s = lo \<and> s \<le> e \<and> chained (e + 1) rest hi)"

definition partitions :: "segment list \<Rightarrow> int \<Rightarrow> bool" where
  "partitions segs n = (segs \<noteq> [] \<and> chained 0 segs n)"

section \<open>getsize.py: the metadata probe\<close>

text \<open>
  Response headers are the dictionary the source indexes by header name:
  \<open>name in headers\<close> is \<open>headers name \<noteq> None\<close> and \<open>headers[name]\<close> reads the value.
\<close>

type_synonym headers = "string \<rightharpoonup> string"

text \<open>
  \<open>int(s)\<close> on a string: surrounding whitespace is stripped (here the ASCII
  whitespace a header value can hold), one sign is allowed, then decimal digits, where
  single underscores may stand between digits. Anything else raises ValueError, here
  \<open>None\<close>.
\<close>

definition is_digit :: "char \<Rightarrow> bool" where
  "is_digit c = (48 \<le> (of_char c :: nat) \<and> (of_char c :: nat) \<le> 57)"

definition digit_val :: "char \<Rightarrow> nat" where
  "digit_val c = of_char c - 48"

definition is_space :: "char \<Rightarrow> bool" where
  "is_space c = ((of_char c :: nat) = 32 \<or> (9 \<le> (of_char c :: nat) \<and> (of_char c :: nat) \<le> 13))"

fun digits_acc :: "nat \<Rightarrow> bool \<Rightarrow> string \<Rightarrow> nat option" where
  "digits_acc acc prev_digit [] = (if prev_digit then Some acc else None)"
| "digits_acc acc prev_digit (c # cs) =
     (if is_digit c then digits_acc (10 * acc + digit_val c) True cs
      else if c = CHR ''_'' \<and> prev_digit then digits_acc acc False cs
      else None)"

definition strip :: "string \<Rightarrow> string" where
  "strip s = rev (dropWhile is_space (rev (dropWhile is_space s)))"

definition py_int :: "string \<Rightarrow> int option" where
  "py_int s =
     (case strip s of
        [] \<Rightarrow> None
      | c # cs \<Rightarrow>
          if c = CHR ''-'' then map_option (\<lambda>n. - int n) (digits_acc 0 False cs)
          else if c = CHR ''+'' then map_option int (digits_acc 0 False cs)
          else map_option int (digits_acc 0 False (c # cs)))"

text \<open>\<open>s.split(sep)\<close> for a one-character separator; the result is never empty.\<close>

fun split_on :: "char \<Rightarrow> string \<Rightarrow> string list" where
  "split_on sep [] = [[]]"
| "split_on sep (c # cs) =
     (if c = sep then [] # split_on sep cs
      else (case split_on sep cs of
              [] \<Rightarrow> [[c]]
            | p # ps \<Rightarrow> (c # p) # ps))"

text \<open>\<open>int(value.split(sep)[-1])\<close>, with the two exceptions the source catches.\<close>

definition int_of_last :: "char \<Rightarrow> string \<Rightarrow> error + int" where
  "int_of_last sep v =
     (case split_on sep v of
        [] \<Rightarrow> Inl IndexError
      | p # ps \<Rightarrow> (case py_int (last (p # ps)) of
                     None \<Rightarrow> Inl ValueError
                   | Some n \<Rightarrow> Inr n))"

text \<open>
  \<open>_extract_file_size\<close>: Content-Range first (the integer after the last \<open>/\<close>, else the
  integer after the last \<open>-\<close>), then Content-Length. A Content-Length that is not an
  integer raises inside the outer \<open>try\<close>, which returns \<open>None\<close>.
\<close>

definition extract_file_size :: "headers \<Rightarrow> int option" where
  "extract_file_size hs =
     (let from_range =
            (case hs ''Content-Range'' of
               None \<Rightarrow> None
             | Some cr \<Rightarrow>
                 (case int_of_last CHR ''/'' cr of
                    Inr n \<Rightarrow> Some n
                  | Inl _ \<Rightarrow>
                      (case int_of_last CHR ''-'' cr of
                         Inr n \<Rightarrow> Some n
                       | Inl _ \<Rightarrow> None)))
      in case from_range of
           Some n \<Rightarrow> Some n
         | None \<Rightarrow>
             (case hs ''Content-Length'' of
                None \<Rightarrow> None
              | Some cl \<Rightarrow> py_int cl))"

text \<open>
  \<open>get_file_info_async\<close>. The two requests are the HEAD request and the GET request with
  \<open>Range: bytes=0-1\<close>, the second one read only when the HEAD headers give no size. Every
  exception leaves as \<open>FileInfoError\<close>. Of the returned dictionary the fields \<open>size\<close>
  and \<open>supports_range\<close> are modelled; \<open>filename\<close> and \<open>content_type\<close> play no part
  in what follows.
\<close>

datatype http_reply = NoReplyTimeout | NoReplyNetwork | Reply nat headers

record file_info =
  info_size :: "int option"
  info_supports_range :: bool

definition supports_range_of :: "headers \<Rightarrow> bool" where
  "supports_range_of hs = (hs ''Accept-Ranges'' \<noteq> None \<or> hs ''Content-Range'' \<noteq> None)"

definition get_file_info_async :: "http_reply \<Rightarrow> http_reply \<Rightarrow> error + file_info" where
  "get_file_info_async head_reply range_reply =
     (case head_reply of
        NoReplyTimeout \<Rightarrow> Inl FileInfoError
      | NoReplyNetwork \<Rightarrow> Inl FileInfoError
      | Reply status hs \<Rightarrow>
          if status \<ge> 400 then Inl FileInfoError
          else
            (case extract_file_size hs of
               Some n \<Rightarrow>
                 Inr \<lparr>info_size = Some n, info_supports_range = supports_range_of hs\<rparr>
             | None \<Rightarrow>
                 (case range_reply of
                    Reply _ rhs \<Rightarrow>
                      Inr \<lparr>info_size = extract_file_size rhs,
                           info_supports_range = supports_range_of hs\<rparr>
                  | _ \<Rightarrow> Inl FileInfoError)))"

section \<open>app.py: choosing the segment count\<close>

text \<open>
  The first half of \<open>Downloader.download_file_async\<close>: \<open>segments or config\<close> takes the
  configured count when the argument is \<open>None\<close> or 0; a server without range support
  gets one segment. A size of \<open>None\<close> makes the comparison in \<open>get_segment\<close> raise
  TypeError.
\<close>

definition plan_segments :: "file_info \<Rightarrow> int option \<Rightarrow> int \<Rightarrow> error + segment list" where
  "plan_segments info segments config_segments_amount =
     (let segments_count =
            (case segments of
               None \<Rightarrow> config_segments_amount
             | Some n \<Rightarrow> if n = 0 then config_segments_amount else n);
          segments_count = (if \<not> info_supports_range info then 1 else segments_count)
      in case info_size info of
           None \<Rightarrow> Inl TypeError
         | Some file_size \<Rightarrow> get_segment file_size segments_count)"

section \<open>fetch.py: the segment fetcher\<close>

type_synonym byte = "8 word"

text \<open>
  What one HTTP attempt of the fetcher meets: a timeout, a transport error, or a response
  with a status and a body, which the source reads whole before it writes.
\<close>

datatype attempt = Timeout | NetworkError | Response nat "byte list"

text \<open>
  \<open>seek(pos)\<close> followed by \<open>write(data)\<close> on a file opened \<open>r+b\<close>: the data replaces
  the bytes from \<open>pos\<close> on and extends the file where it reaches past the end; a gap
  between the old end and \<open>pos\<close> reads as zero bytes. Writing no data changes nothing.
\<close>

definition write_at :: "nat \<Rightarrow> byte list \<Rightarrow> byte list \<Rightarrow> byte list" where
  "write_at pos data content =
     (if data = [] then content
      else take pos content @ replicate (pos - length content) 0 @ data
           @ drop (pos + length data) content)"

text \<open>
  The body of the \<open>try\<close> of one attempt. A status other than 200 and 206 raises
  \<open>DownloadError\<close>; opening a file that does not exist raises; so does a negative seek
  position. The result is the new content of the output file.
\<close>

definition try_attempt :: "attempt \<Rightarrow> int \<Rightarrow> byte list option \<Rightarrow> error + byte list" where
  "try_attempt a start_byte file =
     (case a of
        Timeout \<Rightarrow> Inl TimeoutError
      | NetworkError \<Rightarrow> Inl ClientError
      | Response status segment_data \<Rightarrow>
          if status \<noteq> 200 \<and> status \<noteq> 206 then Inl DownloadError
          else
            (case file of
               None \<Rightarrow> Inl OSError
             | Some content \<Rightarrow>
                 if start_byte < 0 then Inl OSError
                 else Inr (write_at (nat start_byte) segment_data content)))"

text \<open>
  The retry loop \<open>for attempt in range(retry_times)\<close>: every exception of an attempt is
  caught and the next attempt follows; when none is left the function raises
  \<open>DownloadError\<close>. \<open>srv\<close> gives what the attempt with a given number meets.
\<close>

fun attempts_loop ::
  "(nat \<Rightarrow> attempt) \<Rightarrow> int \<Rightarrow> nat \<Rightarrow> nat \<Rightarrow> byte list option
     \<Rightarrow> byte list option \<times> (error + bool)" where
  "attempts_loop srv start_byte attempt 0 file = (file, Inl DownloadError)"
| "attempts_loop srv start_byte attempt (Suc remaining) file =
     (case try_attempt (srv attempt) start_byte file of
        Inr content \<Rightarrow> (Some content, Inr True)
      | Inl e \<Rightarrow> attempts_loop srv start_byte (Suc attempt) remaining file)"

text \<open>The start the fetcher asks for and writes at, after the resume adjustment.\<close>

definition adjusted_start :: "segment \<Rightarrow> int \<Rightarrow> int" where
  "adjusted_start byte_range resume_offset =
     (let (start_byte, end_byte) = byte_range
      in if resume_offset > 0 \<and> resume_offset < end_byte - start_byte + 1
         then start_byte + resume_offset else start_byte)"

definition download_segment_async ::
  "byte list option \<Rightarrow> segment \<Rightarrow> (nat \<Rightarrow> attempt) \<Rightarrow> nat \<Rightarrow> int
     \<Rightarrow> byte list option \<times> (error + bool)" where
  "download_segment_async file byte_range srv retry_times resume_offset =
     attempts_loop srv (adjusted_start byte_range resume_offset) 0 retry_times file"

text \<open>The byte of a file at an offset, if the file is that long.\<close>

definition byte_at :: "byte list \<Rightarrow> nat \<Rightarrow> byte option" where
  "byte_at content i = (if i < length content then Some (content ! i) else None)"

section \<open>fetch.py: the state file and the output file\<close>

text \<open>
  The coordinator touches two paths: the output file and the state file beside it. The
  state file holds JSON; \<open>Garbage\<close> stands for any content that makes reading it raise
  (no JSON, no object, a list of completed ids that is no list). A field \<open>uri\<close> or
  \<open>total_size\<close> that is missing reads as \<open>None\<close>; the other two fields have the
  defaults of \<open>state_data.get\<close> built in. The keys of \<open>segment_progress\<close> are strings,
  as in JSON. The timestamp is written and never read.
\<close>

datatype state_doc =
    Garbage
  | Doc (doc_uri: "string option") (doc_total_size: "int option")
        (doc_completed: "nat list") (doc_progress: "string \<rightharpoonup> int")

record disk =
  out_file :: "byte list option"
  state_file :: "state_doc option"

text \<open>\<open>str(i)\<close> for a segment index: its decimal digits.\<close>

definition digit_char :: "nat \<Rightarrow> char" where
  "digit_char d = ''0123456789'' ! d"

fun str_nat :: "nat \<Rightarrow> string" where
  "str_nat n = (if n < 10 then [digit_char n] else str_nat (n div 10) @ [digit_char (n mod 10)])"

declare str_nat.simps [simp del]

text \<open>
  How a write of the state file can end: done, or \<open>open(state_file, 'w')\<close> raises and
  the file is as before, or the open has emptied the file and the write raises.
\<close>

datatype write_outcome = WriteOk | OpenFails | WriteFails

definition write_state_file :: "write_outcome \<Rightarrow> state_doc \<Rightarrow> disk \<Rightarrow> disk \<times> (error + unit)" where
  "write_state_file w doc d =
     (case w of
        WriteOk \<Rightarrow> (d\<lparr>state_file := Some doc\<rparr>, Inr ())
      | OpenFails \<Rightarrow> (d, Inl OSError)
      | WriteFails \<Rightarrow> (d\<lparr>state_file := Some Garbage\<rparr>, Inl OSError))"

text \<open>\<open>_save_state\<close>: the write sits in a \<open>try\<close> whose handler logs and returns.\<close>

definition save_state ::
  "write_outcome \<Rightarrow> string \<Rightarrow> int \<Rightarrow> nat set \<Rightarrow> (string \<rightharpoonup> int) \<Rightarrow> disk
     \<Rightarrow> disk \<times> (error + unit)" where
  "save_state w uri total_size completed_segments segment_progress d =
     (let state = Doc (Some uri) (Some total_size)
                    (sorted_list_of_set completed_segments) segment_progress
      in case write_state_file w state d of
           (d', Inr u) \<Rightarrow> (d', Inr ())
         | (d', Inl e) \<Rightarrow> (d', Inr ()))"

text \<open>
  The resume check at the start of \<open>DownloadManager.download_file_async\<close>. It returns
  the disk and the two variables \<open>completed_segments\<close> and \<open>segment_progress\<close>.
\<close>

definition resume_check ::
  "bool \<Rightarrow> string \<Rightarrow> int \<Rightarrow> disk \<Rightarrow> disk \<times> nat set \<times> (string \<rightharpoonup> int)" where
  "resume_check resume uri total_size d =
     (if resume \<and> out_file d \<noteq> None \<and> state_file d \<noteq> None then
        (case state_file d of
           Some (Doc u t ids prog) \<Rightarrow>
             if u = Some uri \<and> t = Some total_size then (d, set ids, prog)
             else (d\<lparr>out_file := None, state_file := None\<rparr>, {}, Map.empty)
         | _ \<Rightarrow> (d\<lparr>out_file := None, state_file := None\<rparr>, {}, Map.empty))
      else (d, {}, Map.empty))"

text \<open>
  Creating the output file. The environment says which operating system runs the code
  and which of the file operations succeed.
\<close>

datatype os = Posix | Nt | OtherOS

record env =
  os_name :: os
  mkdir_ok :: bool
  create_ok :: bool
  sparse_ok :: bool
  truncate_ok :: bool
  retry_times :: nat
  server :: "nat \<Rightarrow> nat \<Rightarrow> attempt"

definition create_output :: "env \<Rightarrow> int \<Rightarrow> disk \<Rightarrow> disk \<times> (error + unit)" where
  "create_output e total_size d =
     (if \<not> mkdir_ok e then (d, Inl DownloadError)
      else if out_file d \<noteq> None then (d, Inr ())
      else
        let (d1, r1) =
              (if \<not> create_ok e then (d, Inl OSError)
               else
                 let d0 = d\<lparr>out_file := Some []\<rparr>
                 in if os_name e = OtherOS then (d0, Inr ())
                    else if \<not> sparse_ok e \<or> total_size - 1 < 0 then (d0, Inl OSError)
                    else (d0\<lparr>out_file := Some (write_at (nat (total_size - 1)) [0] [])\<rparr>,
                          Inr ()))
        in case r1 of
             Inr u \<Rightarrow> (d1, Inr ())
           | Inl x \<Rightarrow>
               if \<not> truncate_ok e then (d1, Inl DownloadError)
               else if total_size < 0 then (d1\<lparr>out_file := Some []\<rparr>, Inl DownloadError)
               else (d1\<lparr>out_file := Some (replicate (nat total_size) 0)\<rparr>, Inr ()))"

section \<open>fetch.py: the coordinator\<close>

text \<open>
  A task is created for every segment whose index is not in \<open>completed_segments\<close>; it
  carries the index, the range and \<open>int(segment_progress.get(str(i), 0))\<close>.
\<close>

type_synonym task = "nat \<times> segment \<times> int"

definition resume_offset_of :: "(string \<rightharpoonup> int) \<Rightarrow> nat \<Rightarrow> int" where
  "resume_offset_of segment_progress i =
     (case segment_progress (str_nat i) of None \<Rightarrow> 0 | Some off \<Rightarrow> off)"

definition spawn_tasks :: "segment list \<Rightarrow> nat set \<Rightarrow> (string \<rightharpoonup> int) \<Rightarrow> task list" where
  "spawn_tasks segments completed_segments segment_progress =
     map (\<lambda>(i, byte_range). (i, byte_range, resume_offset_of segment_progress i))
       (filter (\<lambda>(i, byte_range). i \<notin> completed_segments) (enumerate 0 segments))"

text \<open>
  The done-callback of a task: a fetcher that returned true puts its index into
  \<open>completed_segments\<close> and takes \<open>str(index)\<close> out of \<open>segment_progress\<close>; one that
  raised changes nothing.
\<close>

definition callback ::
  "nat \<Rightarrow> error + bool \<Rightarrow> nat set \<times> (string \<rightharpoonup> int) \<Rightarrow> nat set \<times> (string \<rightharpoonup> int)" where
  "callback segment_id result st =
     (case result of
        Inr True \<Rightarrow> (insert segment_id (fst st), (snd st)(str_nat segment_id := None))
      | _ \<Rightarrow> st)"

text \<open>
  The tasks run concurrently. What the coordinator sees of them, up to the moment it
  stops waiting, is a sequence of events: a task settles (its fetcher has run against the
  server and its callback has run), or the periodic updater writes the state file. A task
  that is in no event had not settled by then. An event naming an index that has no
  pending task cannot happen and changes nothing.
\<close>

datatype event = Settle nat | Tick write_outcome

record run_state =
  disk_of :: disk
  completed :: "nat set"
  progress :: "string \<rightharpoonup> int"
  pending :: "task list"

definition settle :: "env \<Rightarrow> task \<Rightarrow> run_state \<Rightarrow> run_state" where
  "settle e t s =
     (let (i, byte_range, resume_offset) = t;
          (file', result) = download_segment_async (out_file (disk_of s)) byte_range
                              (server e i) (retry_times e) resume_offset;
          (completed', progress') = callback i result (completed s, progress s)
      in s\<lparr>disk_of := (disk_of s)\<lparr>out_file := file'\<rparr>,
           completed := completed',
           progress := progress',
           pending := filter (\<lambda>t'. fst t' \<noteq> i) (pending s)\<rparr>)"

definition step :: "env \<Rightarrow> string \<Rightarrow> int \<Rightarrow> run_state \<Rightarrow> event \<Rightarrow> run_state" where
  "step e uri total_size s ev =
     (case ev of
        Tick w \<Rightarrow>
          s\<lparr>disk_of := fst (save_state w uri total_size (completed s) (progress s) (disk_of s))\<rparr>
      | Settle i \<Rightarrow>
          (case find (\<lambda>t. fst t = i) (pending s) of
             None \<Rightarrow> s
           | Some t \<Rightarrow> settle e t s))"

text \<open>
  \<open>_download_without_progress\<close>: create the tasks, let the events happen, write the
  final state, and remove the state file when the number of completed segments equals
  the number of segments. The caller has read \<open>segments[-1]\<close> before, so the list is not
  empty here. The branch of \<open>download_file_async\<close> with the progress bar repeats this
  body statement by statement and adds only the calls of the progress bar, so the one
  function stands for both.
\<close>

definition download_without_progress ::
  "env \<Rightarrow> event list \<Rightarrow> write_outcome \<Rightarrow> string \<Rightarrow> segment list \<Rightarrow> disk \<Rightarrow> nat set
     \<Rightarrow> (string \<rightharpoonup> int) \<Rightarrow> run_state" where
  "download_without_progress e events final_write uri segments d completed_segments
      segment_progress =
     (let total_size = snd (last segments) + 1;
          s0 = \<lparr>disk_of = d, completed = completed_segments, progress = segment_progress,
                pending = spawn_tasks segments completed_segments segment_progress\<rparr>;
          s1 = foldl (step e uri total_size) s0 events;
          d2 = fst (save_state final_write uri total_size (completed s1) (progress s1)
                      (disk_of s1));
          d3 = (if card (completed s1) = length segments
                then d2\<lparr>state_file := None\<rparr> else d2)
      in s1\<lparr>disk_of := d3\<rparr>)"

text \<open>
  The first part of \<open>DownloadManager.download_file_async\<close>: the resume check, then the
  creation of the output file. It yields the two variables \<open>completed_segments\<close> and
  \<open>segment_progress\<close>, or the \<open>DownloadError\<close> of a failed creation.
\<close>

definition prepare ::
  "env \<Rightarrow> bool \<Rightarrow> string \<Rightarrow> int \<Rightarrow> disk
     \<Rightarrow> disk \<times> (error + nat set \<times> (string \<rightharpoonup> int))" where
  "prepare e resume uri total_size d =
     (let (d1, completed_segments, segment_progress) = resume_check resume uri total_size d
      in case create_output e total_size d1 of
           (d2, Inl x) \<Rightarrow> (d2, Inl x)
         | (d2, Inr u) \<Rightarrow> (d2, Inr (completed_segments, segment_progress)))"

text \<open>
  \<open>DownloadManager.download_file_async\<close>. \<open>download_run\<close> is the function up to its
  last statement and keeps the final values of the local variables; the function itself
  returns \<open>str(file_path)\<close>. An empty segment list raises at \<open>segments[-1]\<close>.
\<close>

definition download_run ::
  "env \<Rightarrow> event list \<Rightarrow> write_outcome \<Rightarrow> string \<Rightarrow> segment list \<Rightarrow> bool \<Rightarrow> disk
     \<Rightarrow> disk \<times> (error + run_state)" where
  "download_run e events final_write uri segments resume d =
     (if segments = [] then (d, Inl IndexError)
      else
        let total_size = snd (last segments) + 1
        in case prepare e resume uri total_size d of
             (d2, Inl x) \<Rightarrow> (d2, Inl x)
           | (d2, Inr (completed_segments, segment_progress)) \<Rightarrow>
               let s = download_without_progress e events final_write uri segments d2
                         completed_segments segment_progress
               in (disk_of s, Inr s))"

definition download_file_async ::
  "env \<Rightarrow> event list \<Rightarrow> write_outcome \<Rightarrow> string \<Rightarrow> string \<Rightarrow> segment list \<Rightarrow> bool \<Rightarrow> bool
     \<Rightarrow> disk \<Rightarrow> disk \<times> (error + string)" where
  "download_file_async e events final_write uri file_path segments show_progress resume d =
     (case download_run e events final_write uri segments resume d of
        (d', Inl x) \<Rightarrow> (d', Inl x)
      | (d', Inr s) \<Rightarrow> (d', Inr file_path))"

text \<open>
  The invariant of the download state: no index is both completed and a key of
  \<open>segment_progress\<close>. The completed set holds the indices as integers and the
  dictionary is keyed by \<open>str(index)\<close>, so the index \<open>i\<close> is in both when \<open>i\<close> is
  completed and \<open>str(i)\<close> is a key.
\<close>

definition disjoint_state :: "nat set \<Rightarrow> (string \<rightharpoonup> int) \<Rightarrow> bool" where
  "disjoint_state completed_segments segment_progress =
     (\<forall>i \<in> completed_segments. segment_progress (str_nat i) = None)"

text \<open>The same invariant for a state file on disk, when it can be read.\<close>

definition state_file_disjoint :: "disk \<Rightarrow> bool" where
  "state_file_disjoint d =
     (case state_file d of
        Some (Doc u t ids prog) \<Rightarrow> disjoint_state (set ids) prog
      | _ \<Rightarrow> True)"

text \<open>
  Two event sequences that differ at most in how the periodic writes of the state file
  end.
\<close>

fun same_event :: "event \<Rightarrow> event \<Rightarrow> bool" where
  "same_event (Settle i) (Settle j) = (i = j)"
| "same_event (Tick w) (Tick w') = True"
| "same_event (Settle i) (Tick w) = False"
| "same_event (Tick w) (Settle j) = False"

definition same_schedule :: "event list \<Rightarrow> event list \<Rightarrow> bool" where
  "same_schedule evs evs' = list_all2 same_event evs evs'"

text \<open>The final values of \<open>completed_segments\<close> and \<open>segment_progress\<close> of a run.\<close>

definition memory_of :: "disk \<times> (error + run_state) \<Rightarrow> error + nat set \<times> (string \<rightharpoonup> int)" where
  "memory_of r = (case snd r of Inl x \<Rightarrow> Inl x | Inr s \<Rightarrow> Inr (completed s, progress s))"

text \<open>Servers that answer every attempt alike, for the examples.\<close>

definition always :: "attempt \<Rightarrow> nat \<Rightarrow> attempt" where
  "always a k = a"

definition every_segment :: "attempt \<Rightarrow> nat \<Rightarrow> nat \<Rightarrow> attempt" where
  "every_segment a i k = a"

text \<open>
  An environment for the examples: a POSIX system on which every file operation
  succeeds, two attempts per segment, and a server that answers as given.
\<close>

definition posix_env :: "(nat \<Rightarrow> nat \<Rightarrow> attempt) \<Rightarrow> env" where
  "posix_env srv =
     \<lparr>os_name = Posix, mkdir_ok = True, create_ok = True, sparse_ok = True,
      truncate_ok = True, retry_times = 2, server = srv\<rparr>"

section \<open>Properties of the segment planner\<close>

lemma chained_append:
  "chained lo (xs @ ys) hi = (\<exists>mid. chained lo xs mid \<and> chained mid ys hi)"
  by (induction xs arbitrary: lo) auto

lemma chained_steps:
  "0 < w \<Longrightarrow>
   chained 0 (map (\<lambda>x. (x, x + w - 1)) (map (\<lambda>k. int k * w) [0..<n])) (int n * w)"
proof (induction n)
  case 0
  then show ?case by simp
next
  case (Suc n)
  then show ?case by (simp add: chained_append algebra_simps)
qed

lemma range0_count_pos:
  assumes "0 < (w::int)" "0 < (tot::int)"
  shows "0 < (tot + w - 1) div w"
proof -
  have "w \<le> tot + w - 1" using assms by simp
  then show ?thesis using assms(1) by (simp add: pos_imp_zdiv_pos_iff)
qed

lemma range0_last_start:
  assumes "0 < (w::int)" "0 < (tot::int)"
  shows "((tot + w - 1) div w - 1) * w < tot"
proof -
  have "((tot + w - 1) div w) * w \<le> tot + w - 1"
    using div_mult_mod_eq[of "tot + w - 1" w] pos_mod_sign[OF assms(1), of "tot + w - 1"]
    by linarith
  then show ?thesis by (simp add: algebra_simps)
qed

text \<open>
  The list \<open>get_segment\<close> returns, in closed form: with \<open>w\<close> the width and \<open>m\<close> the
  number of starts \<open>range\<close> produces, the ranges \<open>[k * w, k * w + w - 1]\<close> for
  \<open>k < m - 1\<close> and the last range \<open>[(m - 1) * w, max_size - 1]\<close>.
\<close>

lemma get_segment_shape:
  assumes "0 < max_size" "1 \<le> segments_amount"
  defines "w \<equiv> max_size div (min segments_amount max_size)"
  defines "m \<equiv> nat ((max_size + w - 1) div w)"
  shows "get_segment max_size segments_amount =
           Inr (map (\<lambda>k. (int k * w, int k * w + w - 1)) [0 ..< m - 1]
                @ [(int (m - 1) * w, max_size - 1)])"
    and "0 < w" and "0 < m"
proof -
  let ?n = "min segments_amount max_size"
  have n: "1 \<le> ?n" "?n \<le> max_size" using assms by auto
  show w: "0 < w" unfolding w_def using n by (simp add: pos_imp_zdiv_pos_iff)
  show m: "0 < m" unfolding m_def using range0_count_pos[OF w assms(1)] by simp
  then obtain j where j: "m = Suc j" by (cases m) auto
  have r: "range0 max_size w = map (\<lambda>k. int k * w) [0 ..< m]"
    using w assms(1) by (simp add: range0_def m_def)
  have "get_segment max_size segments_amount =
      (let segments = map (\<lambda>x. (x, x + w - 1)) (range0 max_size w)
       in if segments = [] then Inl IndexError
          else Inr (butlast segments @ [(fst (last segments), max_size - 1)]))"
    using assms(1) n unfolding get_segment_def w_def Let_def
    by (auto simp: min_def)
  also have "\<dots> = Inr (map (\<lambda>k. (int k * w, int k * w + w - 1)) [0 ..< m - 1]
                      @ [(int (m - 1) * w, max_size - 1)])"
    unfolding r j by (simp add: Let_def)
  finally show "get_segment max_size segments_amount =
           Inr (map (\<lambda>k. (int k * w, int k * w + w - 1)) [0 ..< m - 1]
                @ [(int (m - 1) * w, max_size - 1)])" .
qed

text \<open>
  For every size above 0 and every requested count from 1 on, the planner returns ranges
  that partition \<open>[0, max_size)\<close> in ascending order. Their number is the size divided
  by the width, rounded up.
\<close>

lemma get_segment_partitions:
  assumes "0 < max_size" "1 \<le> segments_amount"
  shows "\<exists>segs. get_segment max_size segments_amount = Inr segs \<and> partitions segs max_size
           \<and> int (length segs) =
               (max_size + max_size div (min segments_amount max_size) - 1)
                 div (max_size div (min segments_amount max_size))"
proof -
  define w where "w = max_size div (min segments_amount max_size)"
  define m where "m = nat ((max_size + w - 1) div w)"
  note sh = get_segment_shape[OF assms, folded w_def, folded m_def]
  have c1: "chained 0 (map (\<lambda>k. (int k * w, int k * w + w - 1)) [0 ..< m - 1])
              (int (m - 1) * w)"
    using chained_steps[OF sh(2), of "m - 1"] by (simp add: comp_def)
  have "(((max_size + w - 1) div w) - 1) * w < max_size"
    using range0_last_start[OF sh(2) assms(1)] .
  moreover have "int (m - 1) = (max_size + w - 1) div w - 1"
    using sh(3) unfolding m_def by auto
  ultimately have lt: "int (m - 1) * w < max_size" by simp
  have "chained 0 (map (\<lambda>k. (int k * w, int k * w + w - 1)) [0 ..< m - 1]
                    @ [(int (m - 1) * w, max_size - 1)]) max_size"
    unfolding chained_append using c1 lt by auto
  moreover have "int (length (map (\<lambda>k. (int k * w, int k * w + w - 1)) [0 ..< m - 1]
                    @ [(int (m - 1) * w, max_size - 1)])) = (max_size + w - 1) div w"
    using sh(3) unfolding m_def by auto
  ultimately show ?thesis using sh(1) unfolding partitions_def w_def by auto
qed

text \<open>
  The number of ranges is the requested one (cut down to the size) when that number
  divides the size.
\<close>

lemma get_segment_count_exact:
  assumes "0 < max_size" "1 \<le> segments_amount" "min segments_amount max_size dvd max_size"
  shows "\<exists>segs. get_segment max_size segments_amount = Inr segs
           \<and> int (length segs) = min segments_amount max_size"
proof -
  define k where "k = min segments_amount max_size"
  define w where "w = max_size div k"
  have k: "1 \<le> k" using assms(1,2) by (simp add: k_def)
  have size: "max_size = k * w" using assms(3) by (simp add: w_def k_def)
  have w: "0 < w" unfolding w_def using assms(1) k by (simp add: k_def pos_imp_zdiv_pos_iff)
  have "(k * w + w - 1) div w = k"
    using w by (intro int_div_pos_eq[where r = "w - 1"]) (auto simp: algebra_simps)
  then have "(max_size + w - 1) div w = k" using size by simp
  then show ?thesis
    using get_segment_partitions[OF assms(1,2)] unfolding w_def k_def by auto
qed

text \<open>
  C1. The claim: for every size above 0 and every requested count \<open>n\<close> from 1 on,
  \<open>get_segment\<close> returns ranges that partition \<open>[0, size)\<close> in ascending order, and
  their number is \<open>min(n, size)\<close>. The partition holds (\<open>get_segment_partitions\<close>); the
  number does not: for a file of 10 bytes and 4 requested segments the width is 2,
  \<open>range(0, 10, 2)\<close> has 5 starts, and the planner returns 5 ranges where
  \<open>min(4, 10) = 4\<close>.
\<close>

theorem get_segment_count_exceeds_request:
  "get_segment 10 4 = Inr [(0, 1), (2, 3), (4, 5), (6, 7), (8, 9)]
   \<and> partitions [(0, 1), (2, 3), (4, 5), (6, 7), (8, 9)] 10
   \<and> length [(0, 1), (2, 3), (4, 5), (6, 7), (8, 9) :: segment] = 5
   \<and> min (4::int) 10 = 4"
  by (simp add: get_segment_def range0_def Let_def upt_rec partitions_def)

lemma get_segment_one:
  assumes "0 < n" shows "get_segment n 1 = Inr [(0, n - 1)]"
proof -
  have "(n + n - 1) div n = 1"
    using \<open>0 < n\<close> by (intro int_div_pos_eq[where r="n - 1"]) auto
  then show ?thesis
    using \<open>0 < n\<close> by (simp add: get_segment_def range0_def Let_def min_def)
qed

section \<open>Properties of the metadata probe\<close>

lemmas py_int_eval = py_int_def strip_def is_space_def is_digit_def digit_val_def

lemma split_on_nonempty: "split_on sep s \<noteq> []"
  by (induction s) (auto split: list.splits)

lemma int_of_last_eq:
  "int_of_last sep v =
     (case py_int (last (split_on sep v)) of None \<Rightarrow> Inl ValueError | Some n \<Rightarrow> Inr n)"
  using split_on_nonempty[of sep v] by (auto simp: int_of_last_def split: list.splits)

text \<open>
  C5. The claim: \<open>supports_range\<close> is true exactly when Accept-Ranges is present with a
  value other than "none" or Content-Range is present, so that \<open>Accept-Ranges: none\<close>
  alone gives false and one segment. The source looks only at the presence of the two
  headers: for a HEAD reply with \<open>Content-Length: 8\<close> and \<open>Accept-Ranges: none\<close> the
  field is true, and with 4 configured segments the plan has 4 ranges.
\<close>

theorem accept_ranges_none_counterexample:
  "get_file_info_async
      (Reply 200 [''Content-Length'' \<mapsto> ''8'', ''Accept-Ranges'' \<mapsto> ''none''])
      NoReplyNetwork
     = Inr \<lparr>info_size = Some 8, info_supports_range = True\<rparr>
   \<and> plan_segments \<lparr>info_size = Some 8, info_supports_range = True\<rparr> None 4
       = Inr [(0, 1), (2, 3), (4, 5), (6, 7)]"
  by (simp add: get_file_info_async_def extract_file_size_def supports_range_of_def py_int_eval
      plan_segments_def get_segment_def range0_def Let_def upt_rec)

text \<open>
  C5, as the code has it: whenever the probe returns, \<open>supports_range\<close> is true exactly
  when the HEAD reply has an Accept-Ranges header (whatever its value) or a Content-Range
  header; and when it is false and the size is positive, the plan is the single range
  \<open>[0, size - 1]\<close>, whatever count the caller or the configuration asks for.
\<close>

theorem supports_range_presence:
  "(get_file_info_async (Reply status hs) range_reply = Inr info \<longrightarrow>
      info_supports_range info = (hs ''Accept-Ranges'' \<noteq> None \<or> hs ''Content-Range'' \<noteq> None))
   \<and> (\<not> info_supports_range info \<and> info_size info = Some n \<and> 0 < n \<longrightarrow>
      plan_segments info segments config_segments_amount = Inr [(0, n - 1)])"
  by (auto simp: get_file_info_async_def supports_range_of_def plan_segments_def get_segment_one
      split: if_splits option.splits http_reply.splits)

theorem supports_range_presence_witness:
  "get_file_info_async (Reply 200 [''Content-Length'' \<mapsto> ''1000'']) NoReplyNetwork
     = Inr \<lparr>info_size = Some 1000, info_supports_range = False\<rparr>
   \<and> info_supports_range \<lparr>info_size = Some 1000, info_supports_range = False\<rparr>
       = ([''Content-Length'' \<mapsto> ''1000''] ''Accept-Ranges'' \<noteq> None
          \<or> [''Content-Length'' \<mapsto> ''1000''] ''Content-Range'' \<noteq> None)
   \<and> plan_segments \<lparr>info_size = Some 1000, info_supports_range = False\<rparr> (Some 4) 64
       = Inr [(0, 999)]"
proof -
  have g: "get_file_info_async (Reply 200 [''Content-Length'' \<mapsto> ''1000'']) NoReplyNetwork
     = Inr \<lparr>info_size = Some 1000, info_supports_range = False\<rparr>"
    by (simp add: get_file_info_async_def extract_file_size_def supports_range_of_def py_int_eval)
  show ?thesis
    using g supports_range_presence[of 200 "[''Content-Length'' \<mapsto> ''1000'']" NoReplyNetwork
        "\<lparr>info_size = Some 1000, info_supports_range = False\<rparr>" 1000 "Some 4" 64]
    by simp
qed


text \<open>
  C6. The claim: Content-Length is tried first and wins when both headers are present
  with different values. The source tries Content-Range first: with
  \<open>Content-Length: 2\<close> and \<open>Content-Range: bytes 0-1/1000\<close> the size is 1000.
\<close>

theorem content_range_wins_counterexample:
  "extract_file_size
      [''Content-Length'' \<mapsto> ''2'', ''Content-Range'' \<mapsto> ''bytes 0-1/1000'']
     = Some 1000
   \<and> py_int ''2'' = Some 2"
  by (simp add: extract_file_size_def int_of_last_def py_int_eval)

text \<open>
  C6, as the code has it: Content-Range is tried first, reading the integer after the
  last \<open>/\<close> (\<open>Z\<close> of \<open>bytes X-Y/Z\<close>) and, if that is no integer, the integer after the
  last \<open>-\<close> (\<open>Y\<close> of \<open>bytes X-Y\<close>); only when Content-Range is absent or gives no
  integer is Content-Length read. So when both headers are present and Content-Range
  parses, its value is returned.
\<close>

theorem extract_file_size_order:
  "(hs ''Content-Range'' = Some cr \<and> py_int (last (split_on CHR ''/'' cr)) = Some z
      \<longrightarrow> extract_file_size hs = Some z)
   \<and> (hs ''Content-Range'' = Some cr \<and> py_int (last (split_on CHR ''/'' cr)) = None
        \<and> py_int (last (split_on CHR ''-'' cr)) = Some y
      \<longrightarrow> extract_file_size hs = Some y)
   \<and> (hs ''Content-Range'' = None
        \<or> (hs ''Content-Range'' = Some cr \<and> py_int (last (split_on CHR ''/'' cr)) = None
            \<and> py_int (last (split_on CHR ''-'' cr)) = None)
      \<longrightarrow> extract_file_size hs =
            (case hs ''Content-Length'' of None \<Rightarrow> None | Some cl \<Rightarrow> py_int cl))"
  by (auto simp: extract_file_size_def int_of_last_eq Let_def split: option.splits)

theorem extract_file_size_order_witness:
  "py_int (last (split_on CHR ''/'' ''bytes 0-1/4096'')) = Some 4096
   \<and> extract_file_size
        [''Content-Length'' \<mapsto> ''2'', ''Content-Range'' \<mapsto> ''bytes 0-1/4096'']
       = Some 4096
   \<and> py_int (last (split_on CHR ''/'' ''bytes 0-999'')) = None
   \<and> py_int (last (split_on CHR ''-'' ''bytes 0-999'')) = Some 999
   \<and> extract_file_size
        [''Content-Length'' \<mapsto> ''2'', ''Content-Range'' \<mapsto> ''bytes 0-999'']
       = Some 999
   \<and> extract_file_size [''Content-Length'' \<mapsto> ''1048576''] = Some 1048576"
proof -
  have a: "py_int (last (split_on CHR ''/'' ''bytes 0-1/4096'')) = Some 4096"
    by (simp add: py_int_eval)
  have b: "py_int (last (split_on CHR ''/'' ''bytes 0-999'')) = None"
          "py_int (last (split_on CHR ''-'' ''bytes 0-999'')) = Some 999"
    by (simp_all add: py_int_eval)
  have c: "py_int ''1048576'' = Some 1048576"
    by (simp add: py_int_eval)
  show ?thesis
    using a b c
      extract_file_size_order[of
        "[''Content-Length'' \<mapsto> ''2'', ''Content-Range'' \<mapsto> ''bytes 0-1/4096'']"
        "''bytes 0-1/4096''" 4096 0]
      extract_file_size_order[of
        "[''Content-Length'' \<mapsto> ''2'', ''Content-Range'' \<mapsto> ''bytes 0-999'']"
        "''bytes 0-999''" 0 999]
      extract_file_size_order[of "[''Content-Length'' \<mapsto> ''1048576'']" "[]" 0 0]
    by simp
qed

section \<open>Properties of the segment fetcher\<close>

lemma length_write_at:
  "data \<noteq> [] \<Longrightarrow> length (write_at pos data content) = max (length content) (pos + length data)"
  by (auto simp: write_at_def)

lemma byte_at_write_at:
  assumes "pos \<le> length content"
  shows "byte_at (write_at pos data content) i =
          (if pos \<le> i \<and> i < pos + length data then Some (data ! (i - pos))
           else byte_at content i)"
  using assms
  by (auto simp: write_at_def byte_at_def nth_append min_def)

lemma attempts_loop_cases:
  "attempts_loop srv start a n file = (file', r) \<Longrightarrow>
     (file' = file \<and> r = Inl DownloadError)
   \<or> (\<exists>k content'. a \<le> k \<and> k < a + n \<and> try_attempt (srv k) start file = Inr content'
         \<and> file' = Some content' \<and> r = Inr True)"
proof (induction n arbitrary: a)
  case 0
  then show ?case by auto
next
  case (Suc n)
  show ?case
  proof (cases "try_attempt (srv a) start file")
    case (Inr content')
    then have "file' = Some content' \<and> r = Inr True" using Suc.prems by auto
    then show ?thesis using Inr by (intro disjI2 exI[of _ a] exI[of _ content']) simp
  next
    case (Inl x)
    then have "attempts_loop srv start (Suc a) n file = (file', r)" using Suc.prems by simp
    from Suc.IH[OF this] show ?thesis
    proof
      assume "file' = file \<and> r = Inl DownloadError"
      then show ?thesis by simp
    next
      assume "\<exists>k content'. Suc a \<le> k \<and> k < Suc a + n
         \<and> try_attempt (srv k) start file = Inr content' \<and> file' = Some content' \<and> r = Inr True"
      then obtain k content' where "Suc a \<le> k" "k < Suc a + n"
         "try_attempt (srv k) start file = Inr content'" "file' = Some content'" "r = Inr True"
        by blast
      then show ?thesis by (intro disjI2 exI[of _ k] exI[of _ content']) simp
    qed
  qed
qed

lemma try_attempt_Inr:
  "try_attempt a start file = Inr content' \<Longrightarrow>
     \<exists>status body content. a = Response status body \<and> (status = 200 \<or> status = 206)
        \<and> file = Some content \<and> 0 \<le> start \<and> content' = write_at (nat start) body content"
  by (auto simp: try_attempt_def split: attempt.splits if_splits option.splits)

lemma adjusted_start_bounds:
  "s \<le> adjusted_start (s, e) off"
  "s \<le> e \<Longrightarrow> adjusted_start (s, e) off \<le> e"
  by (auto simp: adjusted_start_def)



text \<open>
  C3. The claim: the fetcher writes only at offsets inside
  \<open>[range.start, range.end_inclusive]\<close>, whatever the length of the body. The source
  writes the whole body at the start offset and never compares its length with the
  range: for the range \<open>[2, 3]\<close> and a 206 response carrying three bytes, the byte at
  offset 4 is overwritten.
\<close>

theorem fetch_overwrites_past_end_counterexample:
  "download_segment_async (Some [0, 0, 0, 0, 0, 0]) (2, 3) (always (Response 206 [5, 6, 7])) 3 0
     = (Some [0, 0, 5, 6, 7, 0], Inr True)
   \<and> byte_at [0, 0, 0, 0, 0, 0] 4 = Some 0
   \<and> byte_at [0, 0, 5, 6, 7, 0] 4 = Some 7"
  by (simp add: download_segment_async_def adjusted_start_def numeral_3_eq_3 always_def
      try_attempt_def write_at_def byte_at_def)

text \<open>
  C3, as the code has it: on a file that reaches the start offset, a fetcher that fails
  leaves the file as it was, and a fetcher that succeeds has written the whole body of
  the accepted response at the offsets from \<open>start\<close> (the range start, moved by the
  resume offset) to \<open>start + length body - 1\<close> and has changed no other byte. No byte
  before the range start is written; the bytes after \<open>end_inclusive\<close> are untouched
  when the body is no longer than \<open>end_inclusive - start + 1\<close>.
\<close>

theorem fetch_writes_whole_body:
  assumes run: "download_segment_async (Some content) (s, e) srv n off = (file', r)"
      and long: "adjusted_start (s, e) off \<le> int (length content)"
      and nonneg: "0 \<le> s"
  shows "\<exists>content'. file' = Some content'
           \<and> (r \<noteq> Inr True \<longrightarrow> content' = content)
           \<and> (r = Inr True \<longrightarrow>
                (\<exists>k status body. k < n \<and> srv k = Response status body
                   \<and> content' = write_at (nat (adjusted_start (s, e) off)) body content
                   \<and> (\<forall>i. int i < adjusted_start (s, e) off
                           \<or> adjusted_start (s, e) off + int (length body) \<le> int i
                        \<longrightarrow> byte_at content' i = byte_at content i)
                   \<and> (\<forall>i. adjusted_start (s, e) off \<le> int i
                           \<and> int i < adjusted_start (s, e) off + int (length body)
                        \<longrightarrow> byte_at content' i = Some (body ! (i - nat (adjusted_start (s, e) off))))
                   \<and> (int (length body) \<le> e - adjusted_start (s, e) off + 1
                        \<longrightarrow> (\<forall>i. int i < s \<or> e < int i
                               \<longrightarrow> byte_at content' i = byte_at content i))))"
proof -
  let ?st = "adjusted_start (s, e) off"
  have st: "s \<le> ?st" by (rule adjusted_start_bounds)
  then have st0: "0 \<le> ?st" using nonneg by simp
  have pos: "nat ?st \<le> length content" using long st0 by simp
  from run have "attempts_loop srv ?st 0 n (Some content) = (file', r)"
    by (simp add: download_segment_async_def)
  from attempts_loop_cases[OF this] show ?thesis
  proof
    assume "file' = Some content \<and> r = Inl DownloadError"
    then show ?thesis by simp
  next
    assume "\<exists>k content'. 0 \<le> k \<and> k < 0 + n \<and> try_attempt (srv k) ?st (Some content) = Inr content'
         \<and> file' = Some content' \<and> r = Inr True"
    then obtain k content' where k: "k < n" "try_attempt (srv k) ?st (Some content) = Inr content'"
         "file' = Some content'" "r = Inr True" by auto
    from try_attempt_Inr[OF k(2)] obtain status body where
      b: "srv k = Response status body" "content' = write_at (nat ?st) body content" by auto
    have out: "\<forall>i. int i < ?st \<or> ?st + int (length body) \<le> int i
                   \<longrightarrow> byte_at content' i = byte_at content i"
      using st0 unfolding b(2) byte_at_write_at[OF pos] by auto
    have ins: "\<forall>i. ?st \<le> int i \<and> int i < ?st + int (length body)
                   \<longrightarrow> byte_at content' i = Some (body ! (i - nat ?st))"
      using st0 unfolding b(2) byte_at_write_at[OF pos] by auto
    have fit: "int (length body) \<le> e - ?st + 1
                 \<longrightarrow> (\<forall>i. int i < s \<or> e < int i \<longrightarrow> byte_at content' i = byte_at content i)"
      using out st by auto
    show ?thesis
      using k(1,3,4) b out ins fit by (intro exI[of _ content']) blast
  qed
qed

theorem fetch_writes_whole_body_witness:
  "download_segment_async (Some [0, 0, 0, 0, 0, 0]) (2, 3) (always (Response 206 [5, 6])) 3 0
     = (Some [0, 0, 5, 6, 0, 0], Inr True)
   \<and> adjusted_start (2, 3) 0 \<le> int (length [0, 0, 0, 0, 0, 0 :: byte])
   \<and> (0::int) \<le> 2
   \<and> byte_at [0, 0, 5, 6, 0, 0] 1 = byte_at [0, 0, 0, 0, 0, 0] 1
   \<and> byte_at [0, 0, 5, 6, 0, 0] 4 = byte_at [0, 0, 0, 0, 0, 0] 4
   \<and> byte_at [0, 0, 5, 6, 0, 0] 7 = byte_at [0, 0, 0, 0, 0, 0] 7"
proof -
  have run: "download_segment_async (Some [0, 0, 0, 0, 0, 0]) (2, 3)
               (always (Response 206 [5, 6])) 3 0 = (Some [0, 0, 5, 6, 0, 0], Inr True)"
    by (simp add: download_segment_async_def adjusted_start_def numeral_3_eq_3 always_def
        try_attempt_def write_at_def)
  have long: "adjusted_start (2, 3) 0 \<le> int (length [0, 0, 0, 0, 0, 0 :: byte])"
    by (simp add: adjusted_start_def)
  have st: "adjusted_start (2, 3) 0 = 2" by (simp add: adjusted_start_def)
  from fetch_writes_whole_body[OF run long]
  have out: "\<forall>i. int i < 2 \<or> 3 < int i
          \<longrightarrow> byte_at [0, 0, 5, 6, 0, 0] i = byte_at [0, 0, 0, 0, 0, 0] i"
    unfolding st by (auto simp: always_def)
  have "byte_at [0, 0, 5, 6, 0, 0] 1 = byte_at [0, 0, 0, 0, 0, 0] 1"
       "byte_at [0, 0, 5, 6, 0, 0] 4 = byte_at [0, 0, 0, 0, 0, 0] 4"
       "byte_at [0, 0, 5, 6, 0, 0] 7 = byte_at [0, 0, 0, 0, 0, 0] 7"
    using out[rule_format, of 1] out[rule_format, of 4] out[rule_format, of 7] by simp_all
  then show ?thesis using run long by simp
qed

text \<open>
  C4. The claim: a 200 response counts as a success only if its body is as long as the
  requested range. The source accepts 200 like 206 and looks at no length: for the range
  \<open>[0, 1]\<close> a 200 response with four bytes is written and the fetcher returns true.
\<close>

theorem status_200_any_length_counterexample:
  "download_segment_async (Some [0, 0, 0, 0]) (0, 1) (always (Response 200 [5, 6, 7, 8])) 1 0
     = (Some [5, 6, 7, 8], Inr True)
   \<and> int (length [5, 6, 7, 8 :: byte]) \<noteq> 1 - 0 + 1"
  by (simp add: download_segment_async_def adjusted_start_def always_def
      try_attempt_def write_at_def)

text \<open>
  C4, as the code has it: an attempt that meets status 200 or 206 succeeds whatever the
  length of the body (the body is written at the start offset of an existing file), an
  attempt that meets any other status fails, and a fetcher whose first attempt meets
  200 or 206 returns true.
\<close>

theorem status_decides_attempt:
  "((status = 200 \<or> status = 206) \<and> 0 \<le> start_byte \<longrightarrow>
      try_attempt (Response status body) start_byte (Some content)
        = Inr (write_at (nat start_byte) body content))
   \<and> (status \<noteq> 200 \<and> status \<noteq> 206 \<longrightarrow>
      try_attempt (Response status body) start_byte file = Inl DownloadError)
   \<and> ((status = 200 \<or> status = 206) \<and> 0 \<le> adjusted_start byte_range resume_offset
        \<and> srv 0 = Response status body \<and> 0 < n \<longrightarrow>
      download_segment_async (Some content) byte_range srv n resume_offset
        = (Some (write_at (nat (adjusted_start byte_range resume_offset)) body content),
           Inr True))"
proof -
  have "0 < n \<Longrightarrow> \<exists>k. n = Suc k" by (cases n) auto
  then show ?thesis
    by (auto simp: try_attempt_def download_segment_async_def)
qed

theorem status_decides_attempt_witness:
  "try_attempt (Response 200 [5, 6, 7]) 1 (Some [0, 0, 0, 0]) = Inr [0, 5, 6, 7]
   \<and> try_attempt (Response 416 []) 1 (Some [0, 0, 0, 0]) = Inl DownloadError
   \<and> adjusted_start (1, 2) 0 = 1
   \<and> always (Response 200 [5, 6, 7]) 0 = Response 200 [5, 6, 7]
   \<and> download_segment_async (Some [0, 0, 0, 0]) (1, 2) (always (Response 200 [5, 6, 7])) 2 0
       = (Some [0, 5, 6, 7], Inr True)"
proof -
  have a: "adjusted_start (1, 2) 0 = 1" by (simp add: adjusted_start_def)
  have w: "write_at (nat 1) [5, 6, 7] [0, 0, 0, 0] = [0, 5, 6, 7 :: byte]"
    by (simp add: write_at_def)
  show ?thesis
    using a w
      status_decides_attempt[of 200 1 "[5, 6, 7]" "[0, 0, 0, 0]" "Some [0, 0, 0, 0]" "(1, 2)" 0
        "always (Response 200 [5, 6, 7])" 2]
      status_decides_attempt[of 416 1 "[]" "[0, 0, 0, 0]" "Some [0, 0, 0, 0]" "(1, 2)" 0
        "always (Response 200 [5, 6, 7])" 2]
    by (simp add: always_def)
qed

section \<open>Properties of the coordinator\<close>

lemma save_state_fst:
  "fst (save_state w uri total_size c p d) =
     (case w of
        WriteOk \<Rightarrow> d\<lparr>state_file := Some (Doc (Some uri) (Some total_size) (sorted_list_of_set c) p)\<rparr>
      | OpenFails \<Rightarrow> d
      | WriteFails \<Rightarrow> d\<lparr>state_file := Some Garbage\<rparr>)"
  by (simp add: save_state_def write_state_file_def Let_def split: write_outcome.splits)

lemma save_state_out_file [simp]:
  "out_file (fst (save_state w uri total_size c p d)) = out_file d"
  by (simp add: save_state_fst split: write_outcome.splits)

lemma create_output_ok:
  "create_output e total_size d = (d', Inr u) \<Longrightarrow>
     out_file d' \<noteq> None \<and> state_file d' = state_file d"
  by (auto simp: create_output_def Let_def split: if_splits prod.splits sum.splits)



lemma fetch_keeps_file:
  "file \<noteq> None \<Longrightarrow> fst (download_segment_async file byte_range srv n off) \<noteq> None"
proof -
  assume f: "file \<noteq> None"
  obtain file' r where run: "download_segment_async file byte_range srv n off = (file', r)"
    by (cases "download_segment_async file byte_range srv n off") auto
  then have "attempts_loop srv (adjusted_start byte_range off) 0 n file = (file', r)"
    by (simp add: download_segment_async_def)
  from attempts_loop_cases[OF this] f show ?thesis unfolding run by auto
qed

lemma callback_disjoint:
  "disjoint_state c p \<Longrightarrow> callback i r (c, p) = (c', p') \<Longrightarrow> disjoint_state c' p'"
  by (auto simp: callback_def disjoint_state_def split: sum.splits bool.splits if_splits)

lemma settle_fields:
  "out_file (disk_of s) \<noteq> None \<Longrightarrow> out_file (disk_of (settle e t s)) \<noteq> None"
  "disjoint_state (completed s) (progress s) \<Longrightarrow>
     disjoint_state (completed (settle e t s)) (progress (settle e t s))"
  "state_file (disk_of (settle e t s)) = state_file (disk_of s)"
proof -
  obtain i byte_range off where t: "t = (i, byte_range, off)" by (cases t) auto
  obtain file' r where run:
    "download_segment_async (out_file (disk_of s)) byte_range (server e i) (retry_times e) off
       = (file', r)"
    by (cases "download_segment_async (out_file (disk_of s)) byte_range (server e i)
                 (retry_times e) off") auto
  obtain c' p' where cb: "callback i r (completed s, progress s) = (c', p')"
    by (cases "callback i r (completed s, progress s)") auto
  have st: "settle e t s = s\<lparr>disk_of := (disk_of s)\<lparr>out_file := file'\<rparr>, completed := c',
              progress := p', pending := filter (\<lambda>t'. fst t' \<noteq> i) (pending s)\<rparr>"
    by (simp add: settle_def t run cb)
  show "out_file (disk_of s) \<noteq> None \<Longrightarrow> out_file (disk_of (settle e t s)) \<noteq> None"
    using fetch_keeps_file[of "out_file (disk_of s)" byte_range "server e i" "retry_times e" off]
    by (simp add: st run)
  show "disjoint_state (completed s) (progress s) \<Longrightarrow>
     disjoint_state (completed (settle e t s)) (progress (settle e t s))"
    using callback_disjoint[OF _ cb] by (simp add: st)
  show "state_file (disk_of (settle e t s)) = state_file (disk_of s)"
    by (simp add: st)
qed



text \<open>The run after the preparation, with its parts named.\<close>

lemma download_run_Inr:
  assumes "download_run e events w uri segments resume d = (d', Inr s)"
  obtains d2 c p where
    "segments \<noteq> []"
    "prepare e resume uri (snd (last segments) + 1) d = (d2, Inr (c, p))"
    "s = download_without_progress e events w uri segments d2 c p"
    "d' = disk_of s"
proof -
  have ne: "segments \<noteq> []" using assms by (auto simp: download_run_def split: if_splits)
  obtain d2 r where pr: "prepare e resume uri (snd (last segments) + 1) d = (d2, r)"
    by (cases "prepare e resume uri (snd (last segments) + 1) d") auto
  with assms ne obtain c p where r: "r = Inr (c, p)"
    by (cases r) (auto simp: download_run_def Let_def)
  with assms ne pr have "s = download_without_progress e events w uri segments d2 c p"
      "d' = disk_of s"
    by (auto simp: download_run_def Let_def)
  with ne pr r that show ?thesis by blast
qed

lemma dwp_fields:
  fixes e events w uri segments d c p
  defines "s1 \<equiv> foldl (step e uri (snd (last segments) + 1))
                   \<lparr>disk_of = d, completed = c, progress = p,
                    pending = spawn_tasks segments c p\<rparr> events"
  defines "s \<equiv> download_without_progress e events w uri segments d c p"
  shows "completed s = completed s1" "progress s = progress s1"
        "out_file (disk_of s) = out_file (disk_of s1)"
        "state_file (disk_of s) =
           (if card (completed s1) = length segments then None
            else state_file (fst (save_state w uri (snd (last segments) + 1) (completed s1)
                                   (progress s1) (disk_of s1))))"
  unfolding s_def s1_def download_without_progress_def Let_def
  by (simp_all)

lemmas run_eval = download_file_async_def download_run_def prepare_def resume_check_def
  create_output_def download_without_progress_def spawn_tasks_def step_def settle_def
  callback_def save_state_def write_state_file_def download_segment_async_def
  adjusted_start_def try_attempt_def write_at_def posix_env_def every_segment_def
  resume_offset_of_def memory_of_def Let_def enumerate_eq_zip

lemma str_nat_small: "str_nat 0 = ''0''" "str_nat 1 = ''1''" "str_nat (Suc 0) = ''1''"
  by (simp_all add: str_nat.simps digit_char_def)







text \<open>The sparse allocation: one zero byte written at offset \<open>total_size - 1\<close>.\<close>

lemma sparse_allocation:
  "1 \<le> total_size \<Longrightarrow> write_at (nat (total_size - 1)) [0] [] = replicate (nat total_size) 0"
proof -
  assume "1 \<le> total_size"
  then have "nat total_size = Suc (nat (total_size - 1))" by simp
  then show ?thesis by (simp add: write_at_def replicate_append_same)
qed

text \<open>
  C8. The claim: an output file that exists with a length other than \<open>total_size\<close>,
  with no matching state file, is deleted and created again with \<open>total_size\<close> bytes.
  The source never looks at the length of an existing output file: with no state file, a
  file of 3 bytes is kept as it is for a download of 10 bytes.
\<close>

theorem existing_output_kept_counterexample:
  "prepare (posix_env (every_segment Timeout)) True ''http://h/f'' 10
      \<lparr>out_file = Some [1, 2, 3], state_file = None\<rparr>
     = (\<lparr>out_file = Some [1, 2, 3], state_file = None\<rparr>, Inr ({}, Map.empty))
   \<and> int (length [1, 2, 3 :: byte]) \<noteq> 10"
  by (simp add: prepare_def resume_check_def create_output_def posix_env_def)

text \<open>
  C8, as the code has it: an output file that exists is kept as it is, whatever its
  length, when resume is off or there is no state file, and also when a matching state
  file is resumed. It is deleted and created again, with exactly \<open>total_size\<close> zero
  bytes, only when resume is on and the state file that exists cannot be read or is for
  another uri or size (on POSIX or Windows, the file operations succeeding).
\<close>

theorem existing_output_kept:
  "(out_file d = Some content \<and> (\<not> resume \<or> state_file d = None) \<and> mkdir_ok e
      \<longrightarrow> prepare e resume uri total_size d = (d, Inr ({}, Map.empty)))
   \<and> (resume \<and> out_file d = Some content
        \<and> state_file d = Some (Doc (Some uri) (Some total_size) ids prog) \<and> mkdir_ok e
      \<longrightarrow> prepare e resume uri total_size d = (d, Inr (set ids, prog)))
   \<and> (resume \<and> out_file d = Some content
        \<and> (state_file d = Some Garbage
            \<or> (state_file d = Some (Doc u t ids prog)
                \<and> (u \<noteq> Some uri \<or> t \<noteq> Some total_size)))
        \<and> mkdir_ok e \<and> create_ok e \<and> sparse_ok e \<and> os_name e \<noteq> OtherOS \<and> 1 \<le> total_size
      \<longrightarrow> prepare e resume uri total_size d
            = (\<lparr>out_file = Some (replicate (nat total_size) 0), state_file = None\<rparr>,
               Inr ({}, Map.empty)))"
proof (intro conjI impI)
  assume "out_file d = Some content \<and> (\<not> resume \<or> state_file d = None) \<and> mkdir_ok e"
  then show "prepare e resume uri total_size d = (d, Inr ({}, Map.empty))"
    by (auto simp: prepare_def resume_check_def create_output_def)
next
  assume "resume \<and> out_file d = Some content
        \<and> state_file d = Some (Doc (Some uri) (Some total_size) ids prog) \<and> mkdir_ok e"
  then show "prepare e resume uri total_size d = (d, Inr (set ids, prog))"
    by (auto simp: prepare_def resume_check_def create_output_def)
next
  assume h: "resume \<and> out_file d = Some content
        \<and> (state_file d = Some Garbage
            \<or> (state_file d = Some (Doc u t ids prog)
                \<and> (u \<noteq> Some uri \<or> t \<noteq> Some total_size)))
        \<and> mkdir_ok e \<and> create_ok e \<and> sparse_ok e \<and> os_name e \<noteq> OtherOS \<and> 1 \<le> total_size"
  then have rc: "resume_check resume uri total_size d
                   = (d\<lparr>out_file := None, state_file := None\<rparr>, {}, Map.empty)"
    by (auto simp: resume_check_def)
  have d0: "d\<lparr>out_file := None, state_file := None\<rparr> = \<lparr>out_file = None, state_file = None\<rparr>"
    by simp
  have "create_output e total_size \<lparr>out_file = None, state_file = None\<rparr>
          = (\<lparr>out_file = Some (replicate (nat total_size) 0), state_file = None\<rparr>, Inr ())"
    using h by (simp add: create_output_def Let_def sparse_allocation)
  then show "prepare e resume uri total_size d
            = (\<lparr>out_file = Some (replicate (nat total_size) 0), state_file = None\<rparr>,
               Inr ({}, Map.empty))"
    by (simp add: prepare_def rc d0)
qed

theorem existing_output_kept_witness:
  "prepare (posix_env (every_segment Timeout)) False ''http://h/f'' 4
      \<lparr>out_file = Some [7], state_file = Some Garbage\<rparr>
     = (\<lparr>out_file = Some [7], state_file = Some Garbage\<rparr>, Inr ({}, Map.empty))
   \<and> prepare (posix_env (every_segment Timeout)) True ''http://h/f'' 4
      \<lparr>out_file = Some [7],
       state_file = Some (Doc (Some ''http://h/f'') (Some 4) [0] Map.empty)\<rparr>
     = (\<lparr>out_file = Some [7],
         state_file = Some (Doc (Some ''http://h/f'') (Some 4) [0] Map.empty)\<rparr>,
        Inr (set [0], Map.empty))
   \<and> prepare (posix_env (every_segment Timeout)) True ''http://h/f'' 4
      \<lparr>out_file = Some [7], state_file = Some Garbage\<rparr>
     = (\<lparr>out_file = Some (replicate (nat 4) 0), state_file = None\<rparr>, Inr ({}, Map.empty))"
  using
    existing_output_kept[of "\<lparr>out_file = Some [7], state_file = Some Garbage\<rparr>" "[7]" False
      "posix_env (every_segment Timeout)" "''http://h/f''" 4 "[]" Map.empty None None]
    existing_output_kept[of
      "\<lparr>out_file = Some [7],
        state_file = Some (Doc (Some ''http://h/f'') (Some 4) [0] Map.empty)\<rparr>" "[7]" True
      "posix_env (every_segment Timeout)" "''http://h/f''" 4 "[0]" Map.empty None None]
    existing_output_kept[of "\<lparr>out_file = Some [7], state_file = Some Garbage\<rparr>" "[7]" True
      "posix_env (every_segment Timeout)" "''http://h/f''" 4 "[]" Map.empty None None]
  by (simp add: posix_env_def)


text \<open>The invariant along a run.\<close>

lemma callback_finite:
  "finite c \<Longrightarrow> finite (fst (callback i r (c, p)))"
  by (auto simp: callback_def split: sum.splits bool.splits)

lemma state_file_disjoint_cong:
  "state_file d' = state_file d \<Longrightarrow> state_file_disjoint d' = state_file_disjoint d"
  by (simp add: state_file_disjoint_def)

lemma save_state_disjoint:
  assumes "finite c" "disjoint_state c p" "state_file_disjoint d"
  shows "state_file_disjoint (fst (save_state w uri total_size c p d))"
  using assms
  by (cases w) (simp_all add: save_state_fst state_file_disjoint_def)

lemma settle_finite:
  "finite (completed s) \<Longrightarrow> finite (completed (settle e t s))"
proof -
  assume f: "finite (completed s)"
  obtain i byte_range off where t: "t = (i, byte_range, off)" by (cases t) auto
  obtain file' r where run:
    "download_segment_async (out_file (disk_of s)) byte_range (server e i) (retry_times e) off
       = (file', r)"
    by (cases "download_segment_async (out_file (disk_of s)) byte_range (server e i)
                 (retry_times e) off") auto
  have "completed (settle e t s) = fst (callback i r (completed s, progress s))"
    by (simp add: settle_def t run case_prod_unfold Let_def)
  then show ?thesis using callback_finite[OF f] by simp
qed

lemma step_sound:
  assumes "finite (completed s)" "disjoint_state (completed s) (progress s)"
          "state_file_disjoint (disk_of s)"
  shows "finite (completed (step e uri total_size s ev))
         \<and> disjoint_state (completed (step e uri total_size s ev))
             (progress (step e uri total_size s ev))
         \<and> state_file_disjoint (disk_of (step e uri total_size s ev))"
proof (cases ev)
  case (Tick w)
  then show ?thesis using assms save_state_disjoint[OF assms] by (simp add: step_def)
next
  case (Settle i)
  show ?thesis
  proof (cases "find (\<lambda>t. fst t = i) (pending s)")
    case None
    then show ?thesis using assms Settle by (simp add: step_def)
  next
    case (Some t)
    have "state_file_disjoint (disk_of (settle e t s))"
      using assms(3) state_file_disjoint_cong[OF settle_fields(3)] by simp
    then show ?thesis
      using Some Settle settle_finite[OF assms(1)] settle_fields(2)[OF assms(2)]
      by (simp add: step_def)
  qed
qed

lemma run_sound:
  "finite (completed s) \<and> disjoint_state (completed s) (progress s)
     \<and> state_file_disjoint (disk_of s) \<Longrightarrow>
   finite (completed (foldl (step e uri total_size) s evs))
     \<and> disjoint_state (completed (foldl (step e uri total_size) s evs))
         (progress (foldl (step e uri total_size) s evs))
     \<and> state_file_disjoint (disk_of (foldl (step e uri total_size) s evs))"
proof (induction evs arbitrary: s)
  case Nil
  then show ?case by simp
next
  case (Cons ev evs)
  have "finite (completed (step e uri total_size s ev))
         \<and> disjoint_state (completed (step e uri total_size s ev))
             (progress (step e uri total_size s ev))
         \<and> state_file_disjoint (disk_of (step e uri total_size s ev))"
    using step_sound Cons.prems by blast
  from Cons.IH[OF this] show ?case by simp
qed

lemma prepare_sound:
  assumes "prepare e resume uri total_size d = (d2, Inr (c, p))" "state_file_disjoint d"
  shows "finite c \<and> disjoint_state c p \<and> state_file_disjoint d2"
proof -
  obtain d1 c1 p1 where rc: "resume_check resume uri total_size d = (d1, c1, p1)"
    by (cases "resume_check resume uri total_size d") auto
  obtain r where co: "create_output e total_size d1 = (d2, r)" and eq: "c1 = c" "p1 = p"
    using assms(1) rc by (auto simp: prepare_def split: prod.splits sum.splits)
  from assms(1) rc co have r: "r = Inr ()" by (auto simp: prepare_def split: sum.splits)
  have 1: "finite c1 \<and> disjoint_state c1 p1 \<and> state_file_disjoint d1"
    using rc assms(2)
    by (auto simp: resume_check_def state_file_disjoint_def disjoint_state_def
        split: if_splits option.splits state_doc.splits)
  have "state_file d2 = state_file d1" using create_output_ok co r by blast
  then show ?thesis using 1 eq state_file_disjoint_cong by blast
qed

text \<open>
  C9. The claim: in every run no index is both completed and a key of the partial map.
  A resumed run takes both from the state file without a check: from a state file that
  lists segment 0 as completed and also has the key \<open>''0''\<close>, the run ends with
  segment 0 in both.
\<close>

theorem disjoint_counterexample:
  "memory_of (download_run (posix_env (every_segment Timeout)) [] WriteOk ''http://h/f''
      [(0, 3)] True
      \<lparr>out_file = Some [0, 0, 0, 0],
       state_file = Some (Doc (Some ''http://h/f'') (Some 4) [0] [''0'' \<mapsto> 1])\<rparr>)
     = Inr ({0}, [''0'' \<mapsto> 1])
   \<and> \<not> disjoint_state {0} [''0'' \<mapsto> 1]"
  by (simp add: run_eval disjoint_state_def str_nat_small)

text \<open>
  C9, as the code has it: the fresh state satisfies the invariant; the callback keeps
  it, and after a successful fetcher the index is completed and its key is gone from the
  partial map; so in every run that starts from a disk whose state file, if it can be
  read, satisfies the invariant, the invariant holds after every sequence of events, and
  the state file left on disk satisfies it again.
\<close>

theorem completed_partial_disjoint:
  "disjoint_state {} Map.empty
   \<and> (disjoint_state c p
        \<longrightarrow> disjoint_state (fst (callback i r (c, p))) (snd (callback i r (c, p))))
   \<and> i \<in> fst (callback i (Inr True) (c, p))
   \<and> snd (callback i (Inr True) (c, p)) (str_nat i) = None
   \<and> (state_file_disjoint d \<and> download_run e events w uri segments resume d = (d', Inr s)
        \<longrightarrow> disjoint_state (completed s) (progress s) \<and> state_file_disjoint d')"
proof (intro conjI impI)
  show "disjoint_state {} Map.empty" by (simp add: disjoint_state_def)
  show "i \<in> fst (callback i (Inr True) (c, p))" by (simp add: callback_def)
  show "snd (callback i (Inr True) (c, p)) (str_nat i) = None" by (simp add: callback_def)
next
  assume "disjoint_state c p"
  then show "disjoint_state (fst (callback i r (c, p))) (snd (callback i r (c, p)))"
    using callback_disjoint[of c p i r] by (cases "callback i r (c, p)") simp
next
  assume h: "state_file_disjoint d \<and> download_run e events w uri segments resume d = (d', Inr s)"
  then obtain d2 c0 p0 where
    pr: "prepare e resume uri (snd (last segments) + 1) d = (d2, Inr (c0, p0))" and
    s: "s = download_without_progress e events w uri segments d2 c0 p0" and d': "d' = disk_of s"
    using download_run_Inr[of e events w uri segments resume d d' s] by blast
  let ?s0 = "\<lparr>disk_of = d2, completed = c0, progress = p0, pending = spawn_tasks segments c0 p0\<rparr>"
  let ?s1 = "foldl (step e uri (snd (last segments) + 1)) ?s0 events"
  have "finite (completed ?s0) \<and> disjoint_state (completed ?s0) (progress ?s0)
          \<and> state_file_disjoint (disk_of ?s0)"
    using prepare_sound[OF pr] h by simp
  from run_sound[OF this]
  have s1: "finite (completed ?s1)" "disjoint_state (completed ?s1) (progress ?s1)"
    "state_file_disjoint (disk_of ?s1)" by blast+
  note f = dwp_fields[of e events w uri segments d2 c0 p0, folded s]
  show "disjoint_state (completed s) (progress s)" using s1(2) f(1,2) by simp
  have "state_file_disjoint (fst (save_state w uri (snd (last segments) + 1) (completed ?s1)
                                   (progress ?s1) (disk_of ?s1)))"
    using save_state_disjoint[OF s1] .
  then show "state_file_disjoint d'"
    unfolding d' using f(4) by (auto simp: state_file_disjoint_def split: if_splits)
qed

theorem completed_partial_disjoint_witness:
  "state_file_disjoint \<lparr>out_file = None, state_file = None\<rparr>
   \<and> download_run (posix_env (every_segment (Response 206 [5, 6]))) [Settle 0] WriteOk
        ''http://h/f'' [(0, 1)] True \<lparr>out_file = None, state_file = None\<rparr>
       = (\<lparr>out_file = Some [5, 6], state_file = None\<rparr>,
          Inr \<lparr>disk_of = \<lparr>out_file = Some [5, 6], state_file = None\<rparr>, completed = {0},
               progress = Map.empty, pending = []\<rparr>)
   \<and> disjoint_state {0} Map.empty
   \<and> state_file_disjoint \<lparr>out_file = Some [5, 6], state_file = None\<rparr>
   \<and> disjoint_state {} [''1'' \<mapsto> 1]
   \<and> disjoint_state (fst (callback 1 (Inr True) ({}, [''1'' \<mapsto> 1])))
        (snd (callback 1 (Inr True) ({}, [''1'' \<mapsto> 1])))"
proof -
  have sfd: "state_file_disjoint \<lparr>out_file = None, state_file = None\<rparr>"
    by (simp add: state_file_disjoint_def)
  have run: "download_run (posix_env (every_segment (Response 206 [5, 6]))) [Settle 0] WriteOk
        ''http://h/f'' [(0, 1)] True \<lparr>out_file = None, state_file = None\<rparr>
       = (\<lparr>out_file = Some [5, 6], state_file = None\<rparr>,
          Inr \<lparr>disk_of = \<lparr>out_file = Some [5, 6], state_file = None\<rparr>, completed = {0},
               progress = Map.empty, pending = []\<rparr>)"
    by (simp add: run_eval str_nat_small numeral_2_eq_2)
  have dj: "disjoint_state {} [''1'' \<mapsto> 1]" by (simp add: disjoint_state_def)
  show ?thesis
    using sfd run dj
      completed_partial_disjoint[of "{}" "[''1'' \<mapsto> 1]" 1 "Inr True"
        "\<lparr>out_file = None, state_file = None\<rparr>"
        "posix_env (every_segment (Response 206 [5, 6]))" "[Settle 0]" WriteOk "''http://h/f''"
        "[(0, 1)]" True "\<lparr>out_file = Some [5, 6], state_file = None\<rparr>"
        "\<lparr>disk_of = \<lparr>out_file = Some [5, 6], state_file = None\<rparr>, completed = {0},
          progress = Map.empty, pending = []\<rparr>"]
    by simp
qed


text \<open>The state file has no influence on what the tasks do.\<close>

lemma save_state_never_raises: "snd (save_state w uri total_size c p d) = Inr ()"
  by (cases w) (simp_all add: save_state_def write_state_file_def)

lemma save_state_only_state_file:
  "\<exists>y. fst (save_state w uri total_size c p d) = d\<lparr>state_file := y\<rparr>"
  by (cases w) (auto simp: save_state_fst intro: exI[of _ "state_file d"])

lemma settle_state_file_irrelevant:
  "settle e t (s\<lparr>disk_of := (disk_of s)\<lparr>state_file := x\<rparr>\<rparr>)
     = (settle e t s)\<lparr>disk_of := (disk_of (settle e t s))\<lparr>state_file := x\<rparr>\<rparr>"
  by (simp add: settle_def case_prod_unfold Let_def)

lemma step_state_file_irrelevant:
  assumes "same_event ev ev'"
  shows "\<exists>y. step e uri t (s\<lparr>disk_of := (disk_of s)\<lparr>state_file := x\<rparr>\<rparr>) ev'
            = (step e uri t s ev)\<lparr>disk_of := (disk_of (step e uri t s ev))\<lparr>state_file := y\<rparr>\<rparr>"
proof (cases ev)
  case (Settle i)
  then have ev': "ev' = Settle i" using assms by (cases ev') auto
  show ?thesis
  proof (cases "find (\<lambda>t. fst t = i) (pending s)")
    case None
    then show ?thesis using Settle ev'
      by (auto simp: step_def intro: exI[of _ x])
  next
    case (Some t)
    then show ?thesis using Settle ev'
      by (auto simp: step_def settle_state_file_irrelevant intro: exI[of _ x])
  qed
next
  case (Tick w)
  then obtain w' where ev': "ev' = Tick w'" using assms by (cases ev') auto
  obtain y where y: "fst (save_state w uri t (completed s) (progress s) (disk_of s))
                       = (disk_of s)\<lparr>state_file := y\<rparr>"
    using save_state_only_state_file by blast
  obtain y' where y': "fst (save_state w' uri t (completed s) (progress s)
                              ((disk_of s)\<lparr>state_file := x\<rparr>))
                       = (disk_of s)\<lparr>state_file := x\<rparr>\<lparr>state_file := y'\<rparr>"
    using save_state_only_state_file by blast
  show ?thesis using Tick ev' y y'
    by (auto simp: step_def intro: exI[of _ y'])
qed

lemma run_state_file_irrelevant:
  "list_all2 same_event evs evs' \<Longrightarrow>
     \<exists>y. foldl (step e uri t) (s\<lparr>disk_of := (disk_of s)\<lparr>state_file := x\<rparr>\<rparr>) evs'
         = (foldl (step e uri t) s evs)
             \<lparr>disk_of := (disk_of (foldl (step e uri t) s evs))\<lparr>state_file := y\<rparr>\<rparr>"
proof (induction evs evs' arbitrary: s x rule: list_all2_induct)
  case Nil
  show ?case by (auto intro: exI[of _ x])
next
  case (Cons ev evs ev' evs')
  obtain y where y: "step e uri t (s\<lparr>disk_of := (disk_of s)\<lparr>state_file := x\<rparr>\<rparr>) ev'
            = (step e uri t s ev)\<lparr>disk_of := (disk_of (step e uri t s ev))\<lparr>state_file := y\<rparr>\<rparr>"
    using step_state_file_irrelevant[OF Cons.hyps(1)] by blast
  show ?case using Cons.IH[where s = "step e uri t s ev" and x = y] by (simp add: y)
qed

lemma run_same_memory:
  assumes "list_all2 same_event evs evs'"
  shows "completed (foldl (step e uri t) s evs') = completed (foldl (step e uri t) s evs)"
        "progress (foldl (step e uri t) s evs') = progress (foldl (step e uri t) s evs)"
        "out_file (disk_of (foldl (step e uri t) s evs'))
           = out_file (disk_of (foldl (step e uri t) s evs))"
proof -
  have s: "s\<lparr>disk_of := (disk_of s)\<lparr>state_file := state_file (disk_of s)\<rparr>\<rparr> = s" by simp
  obtain y where "foldl (step e uri t) s evs'
         = (foldl (step e uri t) s evs)
             \<lparr>disk_of := (disk_of (foldl (step e uri t) s evs))\<lparr>state_file := y\<rparr>\<rparr>"
    using run_state_file_irrelevant[OF assms, where e = e and uri = uri and t = t and s = s
        and x = "state_file (disk_of s)"]
    unfolding s by blast
  then show "completed (foldl (step e uri t) s evs') = completed (foldl (step e uri t) s evs)"
        "progress (foldl (step e uri t) s evs') = progress (foldl (step e uri t) s evs)"
        "out_file (disk_of (foldl (step e uri t) s evs'))
           = out_file (disk_of (foldl (step e uri t) s evs))"
    by simp_all
qed

text \<open>
  C10. \<open>_save_state\<close> never raises: whatever happens to the write, it returns normally.
  And runs that differ only in how the writes of the state file end (the periodic ones and
  the final one) return the same result, end with the same \<open>completed_segments\<close> and
  \<open>segment_progress\<close>, and leave the same output file.
\<close>

theorem failed_checkpoint_is_harmless:
  "snd (save_state w uri total_size c p d) = Inr ()
   \<and> (same_schedule events events' \<longrightarrow>
        snd (download_file_async e events w uri file_path segments show_progress resume d)
          = snd (download_file_async e events' w' uri file_path segments show_progress resume d)
        \<and> memory_of (download_run e events w uri segments resume d)
          = memory_of (download_run e events' w' uri segments resume d)
        \<and> out_file (fst (download_run e events w uri segments resume d))
          = out_file (fst (download_run e events' w' uri segments resume d)))"
proof (intro conjI impI)
  show "snd (save_state w uri total_size c p d) = Inr ()" by (rule save_state_never_raises)
next
  assume "same_schedule events events'"
  then have sch: "list_all2 same_event events events'" by (simp add: same_schedule_def)
  have mem: "\<And>d2 c0 p0.
      completed (download_without_progress e events' w' uri segments d2 c0 p0)
        = completed (download_without_progress e events w uri segments d2 c0 p0)
    \<and> progress (download_without_progress e events' w' uri segments d2 c0 p0)
        = progress (download_without_progress e events w uri segments d2 c0 p0)
    \<and> out_file (disk_of (download_without_progress e events' w' uri segments d2 c0 p0))
        = out_file (disk_of (download_without_progress e events w uri segments d2 c0 p0))"
    using run_same_memory[OF sch] by (simp add: dwp_fields)
  show "memory_of (download_run e events w uri segments resume d)
          = memory_of (download_run e events' w' uri segments resume d)"
    using mem
    by (auto simp: memory_of_def download_run_def Let_def split: prod.splits sum.splits)
  show "out_file (fst (download_run e events w uri segments resume d))
          = out_file (fst (download_run e events' w' uri segments resume d))"
    using mem
    by (auto simp: download_run_def Let_def split: prod.splits sum.splits)
  show "snd (download_file_async e events w uri file_path segments show_progress resume d)
          = snd (download_file_async e events' w' uri file_path segments show_progress resume d)"
    by (auto simp: download_file_async_def download_run_def Let_def split: prod.splits sum.splits)
qed

theorem failed_checkpoint_is_harmless_witness:
  "same_schedule [Tick WriteFails, Settle 0] [Tick WriteOk, Settle 0]
   \<and> snd (save_state WriteFails ''http://h/f'' 2 {} Map.empty
            \<lparr>out_file = None, state_file = None\<rparr>) = Inr ()
   \<and> snd (download_file_async (posix_env (every_segment (Response 206 [5, 6])))
            [Tick WriteFails, Settle 0] WriteFails ''http://h/f'' ''f'' [(0, 1)] False True
            \<lparr>out_file = None, state_file = None\<rparr>)
       = snd (download_file_async (posix_env (every_segment (Response 206 [5, 6])))
            [Tick WriteOk, Settle 0] WriteOk ''http://h/f'' ''f'' [(0, 1)] False True
            \<lparr>out_file = None, state_file = None\<rparr>)
   \<and> memory_of (download_run (posix_env (every_segment (Response 206 [5, 6])))
            [Tick WriteFails, Settle 0] WriteFails ''http://h/f'' [(0, 1)] True
            \<lparr>out_file = None, state_file = None\<rparr>)
       = memory_of (download_run (posix_env (every_segment (Response 206 [5, 6])))
            [Tick WriteOk, Settle 0] WriteOk ''http://h/f'' [(0, 1)] True
            \<lparr>out_file = None, state_file = None\<rparr>)"
proof -
  have sch: "same_schedule [Tick WriteFails, Settle 0] [Tick WriteOk, Settle 0]"
    by (simp add: same_schedule_def)
  show ?thesis
    using sch
      failed_checkpoint_is_harmless[where w = WriteFails and uri = "''http://h/f''"
        and total_size = 2 and c = "{}" and p = Map.empty
        and d = "\<lparr>out_file = None, state_file = None\<rparr>"
        and events = "[Tick WriteFails, Settle 0]" and events' = "[Tick WriteOk, Settle 0]"
        and e = "posix_env (every_segment (Response 206 [5, 6]))" and file_path = "''f''"
        and segments = "[(0, 1)]" and show_progress = False and resume = True
        and w' = WriteOk]
    by (simp add: same_schedule_def)
qed





end
